theory Spec2Isabelle
  imports Main "HOL-Library.Char_ord"
begin

section \<open>Levels\<close>

text \<open>
  \<^verbatim>\<open>type Level int\<close> with the six constants numbered by \<^verbatim>\<open>iota\<close>. A Go string is
  its byte sequence, here a \<^typ>\<open>string\<close>. The claims about levels never reach the
  range limits of \<^verbatim>\<open>int\<close>, so a level is an unbounded integer.
\<close>

type_synonym Level = int

definition DebugLevel :: Level where "DebugLevel = 0"
definition InfoLevel :: Level where "InfoLevel = 1"
definition WarningLevel :: Level where "WarningLevel = 2"
definition ErrorLevel :: Level where "ErrorLevel = 3"
definition PanicLevel :: Level where "PanicLevel = 4"
definition FatalLevel :: Level where "FatalLevel = 5"

lemmas Level_defs =
  DebugLevel_def InfoLevel_def WarningLevel_def ErrorLevel_def PanicLevel_def FatalLevel_def

definition levelNames :: "string list" where
  "levelNames = [''debug'', ''info'', ''warning'', ''error'', ''panic'', ''fatal'']"

text \<open>A run-time panic of the Go program is a value of this type.\<close>

datatype fault = IndexOutOfRange

text \<open>
  \<^verbatim>\<open>func (l Level) String() string { return levelNames[l] }\<close>: indexing a slice with
  a negative index or one past its length panics.
\<close>

definition Level_String :: "Level \<Rightarrow> fault + string" where
  "Level_String l =
     (if 0 \<le> l \<and> l < int (length levelNames) then Inr (levelNames ! nat l)
      else Inl IndexOutOfRange)"

subsection \<open>\<^verbatim>\<open>strings.ToLower\<close>\<close>

text \<open>
  The standard library's \<^verbatim>\<open>strings.ToLower\<close> first scans the bytes. When all of them
  are below \<^verbatim>\<open>utf8.RuneSelf\<close> (0x80) the string is ASCII, and every byte between
  \<^verbatim>\<open>'A'\<close> and \<^verbatim>\<open>'Z'\<close> has \<^verbatim>\<open>'a' - 'A'\<close> added. Otherwise the result is
  \<^verbatim>\<open>Map(unicode.ToLower, s)\<close>.
\<close>

definition isUpperASCII :: "char \<Rightarrow> bool" where
  "isUpperASCII c = (CHR ''A'' \<le> c \<and> c \<le> CHR ''Z'')"

definition lowerByte :: "char \<Rightarrow> char" where
  "lowerByte c = (if isUpperASCII c then char_of (of_char c + (32::nat)) else c)"

definition isASCII :: "string \<Rightarrow> bool" where
  "isASCII s = list_all (\<lambda>c. of_char c < (128::nat)) s"

text \<open>
  A \<^verbatim>\<open>rune\<close> in this part is an \<^typ>\<open>int\<close>, as it is an \<^verbatim>\<open>int32\<close> in Go.
  \<^verbatim>\<open>utf8.DecodeRuneInString\<close> reads one code point off the front of a string and returns
  it with the number of bytes it took. The first byte gives the length of the sequence
  and the range the second byte must lie in (which excludes overlong forms, surrogates
  and code points above U+10FFFF); each later byte must lie between 0x80 and 0xBF. A byte
  sequence that is not valid gives \<^verbatim>\<open>RuneError\<close> (U+FFFD) and width 1; the empty string
  gives \<^verbatim>\<open>RuneError\<close> and width 0.
\<close>

definition RuneError :: int where
  "RuneError = 0xFFFD"

definition DecodeRuneInString :: "string \<Rightarrow> int \<times> nat" where
  "DecodeRuneInString s =
     (if s = [] then (RuneError, 0)
      else
        let s0 = (of_char (s ! 0) :: int) in
        if s0 < 0x80 then (s0, 1)
        else if s0 < 0xC2 \<or> 0xF4 < s0 then (RuneError, 1)
        else
          let sz = (if s0 < 0xE0 then 2 else if s0 < 0xF0 then 3 else 4);
              lo = (if s0 = 0xE0 then 0xA0 else if s0 = 0xF0 then 0x90 else 0x80);
              hi = (if s0 = 0xED then 0x9F else if s0 = 0xF4 then 0x8F else 0xBF)
          in
          if length s < sz then (RuneError, 1)
          else
            let s1 = (of_char (s ! 1) :: int) in
            if s1 < lo \<or> hi < s1 then (RuneError, 1)
            else if sz \<le> 2 then ((s0 mod 32) * 64 + s1 mod 64, 2)
            else
              let s2 = (of_char (s ! 2) :: int) in
              if s2 < 0x80 \<or> 0xBF < s2 then (RuneError, 1)
              else if sz \<le> 3 then ((s0 mod 16) * 4096 + (s1 mod 64) * 64 + s2 mod 64, 3)
              else
                let s3 = (of_char (s ! 3) :: int) in
                if s3 < 0x80 \<or> 0xBF < s3 then (RuneError, 1)
                else ((s0 mod 8) * 262144 + (s1 mod 64) * 4096 + (s2 mod 64) * 64 + s3 mod 64, 4))"

text \<open>
  \<^verbatim>\<open>utf8.EncodeRune\<close>: one to four bytes; a rune that is negative, above U+10FFFF or a
  surrogate is written as \<^verbatim>\<open>RuneError\<close>.
\<close>

definition EncodeRune3 :: "int \<Rightarrow> string" where
  "EncodeRune3 r =
     [char_of (0xE0 + r div 4096), char_of (0x80 + (r div 64) mod 64), char_of (0x80 + r mod 64)]"

definition EncodeRune :: "int \<Rightarrow> string" where
  "EncodeRune r =
     (if 0 \<le> r \<and> r \<le> 0x7F then [char_of r]
      else if 0 \<le> r \<and> r \<le> 0x7FF then [char_of (0xC0 + r div 64), char_of (0x80 + r mod 64)]
      else if r < 0 \<or> 0x10FFFF < r \<or> (0xD800 \<le> r \<and> r \<le> 0xDFFF) then EncodeRune3 RuneError
      else if r \<le> 0xFFFF then EncodeRune3 r
      else [char_of (0xF0 + r div 262144), char_of (0x80 + (r div 4096) mod 64),
            char_of (0x80 + (r div 64) mod 64), char_of (0x80 + r mod 64)])"

lemma DecodeRuneInString_width: "s \<noteq> [] \<Longrightarrow> 0 < snd (DecodeRuneInString s)"
  by (simp add: DecodeRuneInString_def Let_def)

text \<open>
  \<^verbatim>\<open>strings.Map(mapping, s)\<close> has two loops over the code points of \<open>s\<close>. The first
  one skips the code points that \<open>mapping\<close> leaves as they are, except an invalid byte
  (\<^verbatim>\<open>RuneError\<close> of width 1), and keeps their bytes; if it reaches the end, the result is
  \<open>s\<close>. At the first code point that changes it writes the mapped rune, and the second
  loop, \<open>Map_rest\<close>, writes the mapped rune of every code point after it. A negative
  result of \<open>mapping\<close> is dropped.
\<close>

function Map_rest :: "(int \<Rightarrow> int) \<Rightarrow> string \<Rightarrow> string" where
  "Map_rest mapping s =
     (if s = [] then []
      else let (c, width) = DecodeRuneInString s
           in (if 0 \<le> mapping c then EncodeRune (mapping c) else [])
              @ Map_rest mapping (drop width s))"
  by pat_completeness auto
termination
proof (relation "measure (\<lambda>(mapping, s). length s)")
  fix mapping :: "int \<Rightarrow> int" and s :: string and x c width
  assume "s \<noteq> []" "x = DecodeRuneInString s" "(c, width) = x"
  then have "0 < width" "0 < length s"
    using DecodeRuneInString_width [of s] by (simp_all add: snd_def split: prod.splits)
  then show "((mapping, drop width s), (mapping, s)) \<in> measure (\<lambda>(mapping, s). length s)"
    by simp
qed simp

function strings_Map :: "(int \<Rightarrow> int) \<Rightarrow> string \<Rightarrow> string" where
  "strings_Map mapping s =
     (if s = [] then []
      else let (c, width) = DecodeRuneInString s; r = mapping c
           in if r = c \<and> c \<noteq> RuneError then take width s @ strings_Map mapping (drop width s)
              else if c = RuneError \<and> width \<noteq> 1 \<and> r = c
                then take width s @ strings_Map mapping (drop width s)
              else (if 0 \<le> r then EncodeRune r else []) @ Map_rest mapping (drop width s))"
  by pat_completeness auto
termination
proof (relation "measure (\<lambda>(mapping, s). length s)")
  fix mapping :: "int \<Rightarrow> int" and s :: string and x c width
  assume "s \<noteq> []" "x = DecodeRuneInString s" "(c, width) = x"
  then have "0 < width" "0 < length s"
    using DecodeRuneInString_width [of s] by (simp_all add: snd_def split: prod.splits)
  then show "((mapping, drop width s), (mapping, s)) \<in> measure (\<lambda>(mapping, s). length s)"
    by simp
next
  fix mapping :: "int \<Rightarrow> int" and s :: string and x c width
  assume "s \<noteq> []" "x = DecodeRuneInString s" "(c, width) = x"
  then have "0 < width" "0 < length s"
    using DecodeRuneInString_width [of s] by (simp_all add: snd_def split: prod.splits)
  then show "((mapping, drop width s), (mapping, s)) \<in> measure (\<lambda>(mapping, s). length s)"
    by simp
qed simp

text \<open>
  \<^verbatim>\<open>unicode.ToLower\<close> lowers an ASCII rune by arithmetic and looks every other rune up in
  the Unicode case tables. The table's entry for U+0130, the capital I with a dot above,
  is U+0069, the letter \<^verbatim>\<open>i\<close>; the rest of the table is the parameter \<open>U\<close>.
\<close>

definition unicode_ToLower :: "(int \<Rightarrow> int) \<Rightarrow> int \<Rightarrow> int" where
  "unicode_ToLower U r =
     (if r \<le> 0x7F then (if 65 \<le> r \<and> r \<le> 90 then r + 32 else r)
      else if r = 0x130 then 0x69
      else U r)"

definition ToLower :: "(int \<Rightarrow> int) \<Rightarrow> string \<Rightarrow> string" where
  "ToLower U s = (if isASCII s then map lowerByte s else strings_Map (unicode_ToLower U) s)"

definition LevelFromString :: "(int \<Rightarrow> int) \<Rightarrow> string \<Rightarrow> Level" where
  "LevelFromString U level =
     (let l = ToLower U level in
      if l = ''debug'' then DebugLevel
      else if l = ''info'' then InfoLevel
      else if l = ''warning'' then WarningLevel
      else if l = ''error'' then ErrorLevel
      else if l = ''panic'' then PanicLevel
      else if l = ''fatal'' then FatalLevel
      else DebugLevel)"



section \<open>The Recorder\<close>

text \<open>
  An \<^verbatim>\<open>interface{}\<close> argument or field is a value of one of the kinds the claims use.
\<close>

datatype val = VNil | VStr string | VInt int | VBool bool

record LogEntry =
  Level :: Level
  Str :: string
  Args :: "val list"
  Fields :: "val list"

text \<open>
  A \<^verbatim>\<open>*Recorder\<close> is an address. Recorders live in a store that maps every address
  to a cell; \<open>fresh\<close> is the next address to hand out, and the cells below it are the
  allocated ones. A \<^verbatim>\<open>nil\<close> parent is \<open>None\<close>.
\<close>

type_synonym ref = nat

text \<open>The field \<^verbatim>\<open>fields\<close> is \<open>rfields\<close> here: the record package keeps \<open>fields\<close> for itself.\<close>

record Recorder =
  rfields :: "val list"
  syncCalled :: bool
  parent :: "ref option"
  entries :: "LogEntry list"

record heap =
  cells :: "ref \<Rightarrow> Recorder"
  fresh :: ref

text \<open>The zero value \<^verbatim>\<open>Recorder{}\<close>, and \<^verbatim>\<open>&Recorder{...}\<close> storing a value in a new cell.\<close>

definition Recorder_zero :: Recorder where
  "Recorder_zero = \<lparr>rfields = [], syncCalled = False, parent = None, entries = []\<rparr>"

definition alloc :: "heap \<Rightarrow> Recorder \<Rightarrow> ref \<times> heap" where
  "alloc h v = (fresh h, h\<lparr>cells := (cells h)(fresh h := v), fresh := Suc (fresh h)\<rparr>)"

definition heap_empty :: heap where
  "heap_empty = \<lparr>cells = (\<lambda>_. Recorder_zero), fresh = 0\<rparr>"

text \<open>
  \<^verbatim>\<open>rec := &Recorder{}\<close>, and the store that holds this one Recorder, at address 0.
\<close>

definition Recorder_new :: "heap \<Rightarrow> ref \<times> heap" where
  "Recorder_new h = alloc h Recorder_zero"

definition heap_one :: heap where
  "heap_one = snd (Recorder_new heap_empty)"

text \<open>
  \<^verbatim>\<open>top\<close> walks the parent pointers. The loop has no bound of its own, so it is a
  partial function: \<open>None\<close> is a walk that never ends.
\<close>

partial_function (option) top_loop :: "heap \<Rightarrow> ref \<Rightarrow> ref option \<Rightarrow> ref option" where
  "top_loop h t par =
     (case par of None \<Rightarrow> Some t | Some p \<Rightarrow> top_loop h p (parent (cells h p)))"

definition Recorder_top :: "heap \<Rightarrow> ref \<Rightarrow> ref option" where
  "Recorder_top h rec = top_loop h rec (parent (cells h rec))"

definition Recorder_clone :: "heap \<Rightarrow> ref \<Rightarrow> val list \<Rightarrow> ref \<times> heap" where
  "Recorder_clone h rec fs =
     alloc h (Recorder_zero\<lparr>parent := Some rec, rfields := [] @ fs\<rparr>)"

definition Recorder_With :: "heap \<Rightarrow> ref \<Rightarrow> val list \<Rightarrow> ref \<times> heap" where
  "Recorder_With h rec fs = Recorder_clone h rec (([] @ rfields (cells h rec)) @ fs)"

definition Recorder_record :: "heap \<Rightarrow> ref \<Rightarrow> Level \<Rightarrow> string \<Rightarrow> val list \<Rightarrow> heap option" where
  "Recorder_record h rec lvl str args =
     (case Recorder_top h rec of
        None \<Rightarrow> None
      | Some t \<Rightarrow>
          let e = \<lparr>Level = lvl, Str = str, Args = args, Fields = rfields (cells h rec)\<rparr>
          in Some (h\<lparr>cells := (cells h)(t := (cells h t)\<lparr>entries := entries (cells h t) @ [e]\<rparr>)\<rparr>))"

definition Recorder_Log :: "heap \<Rightarrow> ref \<Rightarrow> Level \<Rightarrow> val list \<Rightarrow> heap option" where
  "Recorder_Log h rec lvl args = Recorder_record h rec lvl '''' args"

definition Recorder_Logf :: "heap \<Rightarrow> ref \<Rightarrow> Level \<Rightarrow> string \<Rightarrow> val list \<Rightarrow> heap option" where
  "Recorder_Logf h rec lvl str args = Recorder_record h rec lvl str args"

definition Recorder_Sync :: "heap \<Rightarrow> ref \<Rightarrow> heap option" where
  "Recorder_Sync h rec =
     (case Recorder_top h rec of
        None \<Rightarrow> None
      | Some t \<Rightarrow> Some (h\<lparr>cells := (cells h)(t := (cells h t)\<lparr>syncCalled := True\<rparr>)\<rparr>))"

definition Recorder_SyncCalled :: "heap \<Rightarrow> ref \<Rightarrow> bool option" where
  "Recorder_SyncCalled h rec =
     (case Recorder_top h rec of None \<Rightarrow> None | Some t \<Rightarrow> Some (syncCalled (cells h t)))"

definition Recorder_Entries :: "heap \<Rightarrow> ref \<Rightarrow> LogEntry list option" where
  "Recorder_Entries h rec =
     (case Recorder_top h rec of None \<Rightarrow> None | Some t \<Rightarrow> Some (entries (cells h t)))"

subsection \<open>\<^verbatim>\<open>Dump\<close>\<close>

text \<open>
  \<^verbatim>\<open>fmt.Sprint(a)\<close> of one operand: a string is written as it is, an integer in
  decimal, a boolean as \<^verbatim>\<open>true\<close> or \<^verbatim>\<open>false\<close>, and \<^verbatim>\<open>nil\<close> as \<^verbatim>\<open><nil>\<close>.
\<close>

definition digit :: "nat \<Rightarrow> char" where
  "digit d = char_of (of_char (CHR ''0'') + d)"

fun digits :: "nat \<Rightarrow> string" where
  "digits n = (if n < 10 then [digit n] else digits (n div 10) @ [digit (n mod 10)])"

definition itoa :: "int \<Rightarrow> string" where
  "itoa i = (if i < 0 then CHR ''-'' # digits (nat (- i)) else digits (nat i))"

fun Sprint :: "val \<Rightarrow> string" where
  "Sprint VNil = ''<nil>''"
| "Sprint (VStr s) = s"
| "Sprint (VInt i) = itoa i"
| "Sprint (VBool b) = (if b then ''true'' else ''false'')"

text \<open>
  \<^verbatim>\<open>fmt.Sprintf("%-7s", s)\<close>: the string, then spaces up to the width, none when the
  string is as long or longer.
\<close>

definition pad_right :: "nat \<Rightarrow> string \<Rightarrow> string" where
  "pad_right w s = s @ replicate (w - length s) (CHR '' '')"

text \<open>
  The two loops of \<^verbatim>\<open>Dump\<close> that write the operands with \<^verbatim>\<open>", "\<close> between them:
  the index \<open>i\<close> and the buffer \<open>b\<close> written so far.
\<close>

fun write_vals :: "val list \<Rightarrow> nat \<Rightarrow> string \<Rightarrow> string" where
  "write_vals [] i b = b"
| "write_vals (a # as) i b =
     write_vals as (Suc i) ((if i > 0 then b @ '', '' else b) @ Sprint a)"

text \<open>
  The body of the loop over the entries. \<^verbatim>\<open>fmt.Sprintf\<close> with the entry's own format
  string is the standard library's and is the parameter \<open>Sprintf\<close>. The level's
  \<^verbatim>\<open>String()\<close> can panic, and then so does \<^verbatim>\<open>Dump\<close>.
\<close>

definition dump_entry ::
  "(string \<Rightarrow> val list \<Rightarrow> string) \<Rightarrow> LogEntry \<Rightarrow> string \<Rightarrow> fault + string" where
  "dump_entry Sprintf e b =
     (case Level_String (Level e) of
        Inl f \<Rightarrow> Inl f
      | Inr name \<Rightarrow>
          let b1 = b @ ''['' @ pad_right 7 name @ '']'';
              b2 = (if Str e \<noteq> '''' then b1 @ '' '' @ Sprintf (Str e) (Args e) else b1);
              b3 = (if Str e = '''' \<and> length (Args e) > 0
                    then write_vals (Args e) 0 (b2 @ '' ['') @ '']'' else b2);
              b4 = write_vals (Fields e) 0 (b3 @ '' {'') @ ''}'' @ [CHR 0x0A]
          in Inr b4)"

fun dump_entries ::
  "(string \<Rightarrow> val list \<Rightarrow> string) \<Rightarrow> LogEntry list \<Rightarrow> string \<Rightarrow> fault + string" where
  "dump_entries Sprintf [] b = Inr b"
| "dump_entries Sprintf (e # es) b =
     (case dump_entry Sprintf e b of Inl f \<Rightarrow> Inl f | Inr b' \<Rightarrow> dump_entries Sprintf es b')"

definition Recorder_Dump ::
  "(string \<Rightarrow> val list \<Rightarrow> string) \<Rightarrow> heap \<Rightarrow> ref \<Rightarrow> (fault + string) option" where
  "Recorder_Dump Sprintf h rec =
     (case Recorder_Entries h rec of
        None \<Rightarrow> None
      | Some es \<Rightarrow> Some (dump_entries Sprintf es []))"

text \<open>A sequence of \<^verbatim>\<open>Logf\<close> calls, each on a Recorder of its own choice.\<close>

fun log_seq :: "heap \<Rightarrow> (ref \<times> Level \<times> string \<times> val list) list \<Rightarrow> heap option" where
  "log_seq h [] = Some h"
| "log_seq h ((r, lvl, str, args) # es) =
     (case Recorder_Logf h r lvl str args of None \<Rightarrow> None | Some h' \<Rightarrow> log_seq h' es)"

text \<open>
  The chain of a root: the root itself, a Recorder with no parent, and every Recorder
  whose parent is in the chain.
\<close>

inductive derived :: "heap \<Rightarrow> ref \<Rightarrow> ref \<Rightarrow> bool" where
  derived_root: "parent (cells h root) = None \<Longrightarrow> derived h root root"
| derived_child: "derived h root p \<Longrightarrow> parent (cells h r) = Some p \<Longrightarrow> derived h root r"

text \<open>
  In a store built by allocation, a parent is allocated before its children. Only
  \<^verbatim>\<open>clone\<close> sets a parent, to the Recorder it is called on.
\<close>

definition wf_heap :: "heap \<Rightarrow> bool" where
  "wf_heap h = (\<forall>r p. r < fresh h \<and> parent (cells h r) = Some p \<longrightarrow> p < r)"

section \<open>Writers and the Logger\<close>

text \<open>
  The \<^verbatim>\<open>Writer\<close> interface with its two implementations that hold no outside
  resource: the no-op writer and a pointer to a Recorder. (The third, \<^verbatim>\<open>zapLogger\<close>,
  wraps the zap library and is no part of the claims.) A method call on the interface
  dispatches on the constructor.
\<close>

datatype Writer = noOpLogger | RecorderW ref

definition Writer_Log :: "Writer \<Rightarrow> Level \<Rightarrow> val list \<Rightarrow> heap \<Rightarrow> heap option" where
  "Writer_Log w lvl args h =
     (case w of noOpLogger \<Rightarrow> Some h | RecorderW rec \<Rightarrow> Recorder_Log h rec lvl args)"

definition Writer_Logf :: "Writer \<Rightarrow> Level \<Rightarrow> string \<Rightarrow> val list \<Rightarrow> heap \<Rightarrow> heap option" where
  "Writer_Logf w lvl str args h =
     (case w of noOpLogger \<Rightarrow> Some h | RecorderW rec \<Rightarrow> Recorder_Logf h rec lvl str args)"

definition Writer_With :: "Writer \<Rightarrow> val list \<Rightarrow> heap \<Rightarrow> Writer \<times> heap" where
  "Writer_With w fs h =
     (case w of
        noOpLogger \<Rightarrow> (noOpLogger, h)
      | RecorderW rec \<Rightarrow> (let (r, h') = Recorder_With h rec fs in (RecorderW r, h')))"

definition Writer_Sync :: "Writer \<Rightarrow> heap \<Rightarrow> heap option" where
  "Writer_Sync w h = (case w of noOpLogger \<Rightarrow> Some h | RecorderW rec \<Rightarrow> Recorder_Sync h rec)"

text \<open>
  A \<^verbatim>\<open>context.Context\<close> is read only through \<^verbatim>\<open>Value\<close>: a partial map from keys to
  values. The key of the request id has a type of its own, so no other key equals it.
\<close>

datatype ctxkey = requestIDKey | OtherKey string

type_synonym Context = "ctxkey \<Rightarrow> val option"

type_synonym CtxMiddleware = "Context \<Rightarrow> val list"

definition NewContext :: "Context \<Rightarrow> string \<Rightarrow> Context" where
  "NewContext ctx reqID = ctx(requestIDKey \<mapsto> VStr reqID)"

definition FromContext :: "Context \<Rightarrow> string" where
  "FromContext ctx = (case ctx requestIDKey of Some (VStr v) \<Rightarrow> v | _ \<Rightarrow> '''')"

definition RequestIDMiddleware :: CtxMiddleware where
  "RequestIDMiddleware ctx =
     (let reqID = FromContext ctx
      in if reqID \<noteq> '''' then [VStr ''request_id'', VStr reqID] else [])"

definition DefaultMiddlewares :: "CtxMiddleware list" where
  "DefaultMiddlewares = [RequestIDMiddleware]"

record Config =
  cfgLog :: string
  cfgLevel :: Level
  cfgOutputPaths :: "string list"
  cfgCtxMiddlewares :: "CtxMiddleware list"
  cfgSkipDefaultMiddlewares :: bool
  cfgDisableStacktrace :: bool

text \<open>The zero value \<^verbatim>\<open>Config{}\<close>.\<close>

definition Config_zero :: Config where
  "Config_zero = \<lparr>cfgLog = [], cfgLevel = 0, cfgOutputPaths = [], cfgCtxMiddlewares = [],
     cfgSkipDefaultMiddlewares = False, cfgDisableStacktrace = False\<rparr>"

text \<open>A \<^verbatim>\<open>nil\<close> writer is \<open>None\<close>.\<close>

record Logger =
  writer :: "Writer option"
  level :: Level
  ctxMiddlewares :: "CtxMiddleware list"

definition Logger_zero :: Logger where
  "Logger_zero = \<lparr>writer = None, level = 0, ctxMiddlewares = []\<rparr>"

definition NewWithWriter :: "Config \<Rightarrow> Writer option \<Rightarrow> Logger" where
  "NewWithWriter cfg w =
     (let l = \<lparr>writer = w, level = cfgLevel cfg, ctxMiddlewares = cfgCtxMiddlewares cfg\<rparr>
      in if cfgSkipDefaultMiddlewares cfg then l
         else l\<lparr>ctxMiddlewares := ctxMiddlewares l @ DefaultMiddlewares\<rparr>)"

definition noOpWriter :: Writer where
  "noOpWriter = noOpLogger"

definition innerWriter :: "Logger \<Rightarrow> Writer" where
  "innerWriter l = (case writer l of None \<Rightarrow> noOpWriter | Some w \<Rightarrow> w)"

definition Logger_clone :: "Logger \<Rightarrow> Writer \<Rightarrow> Logger" where
  "Logger_clone l w = \<lparr>writer = Some w, level = level l, ctxMiddlewares = ctxMiddlewares l\<rparr>"

definition Logger_Log :: "Logger \<Rightarrow> Level \<Rightarrow> val list \<Rightarrow> heap \<Rightarrow> heap option" where
  "Logger_Log l lvl args h =
     (if lvl < level l then Some h else Writer_Log (innerWriter l) lvl args h)"

definition Logger_Logf :: "Logger \<Rightarrow> Level \<Rightarrow> string \<Rightarrow> val list \<Rightarrow> heap \<Rightarrow> heap option" where
  "Logger_Logf l lvl str args h =
     (if lvl < level l then Some h else Writer_Logf (innerWriter l) lvl str args h)"

definition Logger_With :: "Logger \<Rightarrow> val list \<Rightarrow> heap \<Rightarrow> Logger \<times> heap" where
  "Logger_With l fs h = (let (w, h') = Writer_With (innerWriter l) fs h in (Logger_clone l w, h'))"

definition Logger_Sync :: "Logger \<Rightarrow> heap \<Rightarrow> heap option" where
  "Logger_Sync l h = Writer_Sync (innerWriter l) h"

text \<open>The loop of \<^verbatim>\<open>WithContext\<close> over the middlewares, with the slice it appends to.\<close>

fun collect_fields :: "CtxMiddleware list \<Rightarrow> Context \<Rightarrow> val list \<Rightarrow> val list" where
  "collect_fields [] ctx fs = fs"
| "collect_fields (m # ms) ctx fs =
     (let got = m ctx
      in if length got > 0 then collect_fields ms ctx (fs @ got) else collect_fields ms ctx fs)"

definition Logger_WithContext :: "Logger \<Rightarrow> Context \<Rightarrow> heap \<Rightarrow> Logger \<times> heap" where
  "Logger_WithContext l ctx h =
     (let fs = collect_fields (ctxMiddlewares l) ctx []
      in if length fs = 0 then (l, h) else Logger_With l fs h)"

text \<open>One call on a Logger, and a sequence of calls, each on the Logger the last one left.\<close>

datatype call =
  CallLog Level "val list"
| CallLogf Level string "val list"
| CallWith "val list"
| CallSync

fun run_call :: "call \<Rightarrow> Logger \<times> heap \<Rightarrow> (Logger \<times> heap) option" where
  "run_call (CallLog lvl args) (l, h) = map_option (Pair l) (Logger_Log l lvl args h)"
| "run_call (CallLogf lvl str args) (l, h) = map_option (Pair l) (Logger_Logf l lvl str args h)"
| "run_call (CallWith fs) (l, h) = Some (Logger_With l fs h)"
| "run_call CallSync (l, h) = map_option (Pair l) (Logger_Sync l h)"

fun run_calls :: "call list \<Rightarrow> Logger \<times> heap \<Rightarrow> (Logger \<times> heap) option" where
  "run_calls [] s = Some s"
| "run_calls (c # cs) s = (case run_call c s of None \<Rightarrow> None | Some s' \<Rightarrow> run_calls cs s')"

section \<open>Secret masking\<close>

subsection \<open>The regular expressions of package \<^verbatim>\<open>regexp\<close>\<close>

text \<open>
  The \<^verbatim>\<open>regexp\<close> package reads a buffer as UTF-8, one code point at a time, and an
  invalid byte as one character of its own. A character of the model is such a unit, a
  number: the code point, or for an invalid byte any number that is no code point. A
  buffer is the list of its units; for an ASCII buffer that is the list of its bytes.
  \<^verbatim>\<open>ReplaceAll\<close> copies the units it does not replace, and both replacement texts
  are ASCII.
\<close>

type_synonym rune = nat


text \<open>
  The syntax the two patterns need: a character class, concatenation, the greedy star
  and the capture group. \<^verbatim>\<open>x+\<close> is \<^verbatim>\<open>xx*\<close> and \<^verbatim>\<open>x{3}\<close> is \<^verbatim>\<open>xxx\<close>.
\<close>

datatype regex = Sym "rune \<Rightarrow> bool" | Seq regex regex | Star regex | Group nat regex

type_synonym caps = "(nat \<times> rune list) list"

text \<open>
  All the ways a pattern matches at the start of \<open>s\<close>, each with what is left of \<open>s\<close>
  and the text of its groups, in the order of preference of a backtracking matcher: a
  star tries one more round before it stops. The package returns the first of them
  (leftmost-first matching).
\<close>

fun matches :: "regex \<Rightarrow> rune list \<Rightarrow> (rune list \<times> caps) list" where
  "matches (Sym p) s = (case s of [] \<Rightarrow> [] | c # cs \<Rightarrow> if p c then [(cs, [])] else [])"
| "matches (Seq a b) s =
     concat (map (\<lambda>x. map (\<lambda>y. (fst y, snd x @ snd y)) (matches b (fst x))) (matches a s))"
| "matches (Star a) s =
     concat (map (\<lambda>x. if length (fst x) < length s
                        then map (\<lambda>y. (fst y, snd x @ snd y)) (matches (Star a) (fst x)) else [])
                 (matches a s))
     @ [(s, [])]"
| "matches (Group n a) s =
     map (\<lambda>x. (fst x, (n, take (length s - length (fst x)) s) # snd x)) (matches a s)"

declare matches.simps [simp del]

lemmas matches_simps = matches.simps(1,2,4)










subsection \<open>The two patterns and \<^verbatim>\<open>SecretMask\<close>\<close>

text \<open>
  Both patterns start with \<^verbatim>\<open>(?i)\<close>. A literal then matches every character of its
  case-folding orbit: the letter in both cases, and with \<^verbatim>\<open>s\<close> also U+017F, with
  \<^verbatim>\<open>k\<close> also U+212A.
\<close>

definition fold_lit :: "rune \<Rightarrow> rune \<Rightarrow> bool" where
  "fold_lit l r =
     (r = l \<or> (65 \<le> l \<and> l \<le> 90 \<and> r = l + 32) \<or> (97 \<le> l \<and> l \<le> 122 \<and> r + 32 = l)
      \<or> ((l = 83 \<or> l = 115) \<and> r = 0x17F) \<or> ((l = 75 \<or> l = 107) \<and> r = 0x212A))"














section \<open>Properties of levels\<close>

lemma Level_String_cases:
  "Level_String 0 = Inr ''debug''" "Level_String 1 = Inr ''info''"
  "Level_String 2 = Inr ''warning''" "Level_String 3 = Inr ''error''"
  "Level_String 4 = Inr ''panic''" "Level_String 5 = Inr ''fatal''"
  by (simp_all add: Level_String_def levelNames_def)


lemma lowerByte_lower: "lowerByte c = c" if "\<not> isUpperASCII c"
  using that by (simp add: lowerByte_def)








text \<open>
  The bytes 0xC4 0xB0 are U+0130 in UTF-8. The string they make with \<^verbatim>\<open>NFO\<close> is lowered
  to \<^verbatim>\<open>info\<close>, whatever the rest of the case table is.
\<close>

lemma LevelFromString_dotted_I:
  "LevelFromString U [CHR 0xC4, CHR 0xB0, CHR ''N'', CHR ''F'', CHR ''O''] = InfoLevel"
  by code_simp




text \<open>
  C10. \<^verbatim>\<open>Level.String\<close> returns a name exactly on the ordinals 0 to 5 and panics with
  an index out of range on every other integer, \<^verbatim>\<open>Level(6)\<close> and \<^verbatim>\<open>Level(-1)\<close> among
  them, while \<^verbatim>\<open>LevelFromString\<close> returns one of the six levels on every string.
\<close>

theorem Level_String_partial:
  "(Level_String l = Inl IndexOutOfRange) = (l < 0 \<or> 5 < l)
   \<and> (\<exists>n. Level_String l = Inr n) = (0 \<le> l \<and> l \<le> 5)
   \<and> Level_String 6 = Inl IndexOutOfRange
   \<and> Level_String (- 1) = Inl IndexOutOfRange
   \<and> 0 \<le> LevelFromString U s \<and> LevelFromString U s \<le> 5
   \<and> (\<exists>n. Level_String (LevelFromString U s) = Inr n)"
proof -
  have range: "0 \<le> LevelFromString U s \<and> LevelFromString U s \<le> 5"
    by (simp add: LevelFromString_def Level_defs Let_def)
  have total: "(\<exists>n. Level_String k = Inr n) = (0 \<le> k \<and> k \<le> 5)" for k
    by (auto simp: Level_String_def levelNames_def)
  have "(Level_String l = Inl IndexOutOfRange) = (l < 0 \<or> 5 < l)"
    by (auto simp: Level_String_def levelNames_def)
  moreover have "Level_String 6 = Inl IndexOutOfRange" "Level_String (- 1) = Inl IndexOutOfRange"
    by (simp_all add: Level_String_def levelNames_def)
  ultimately show ?thesis
    using range total by simp
qed

section \<open>Properties of the Recorder and the Logger\<close>

declare digits.simps [simp del]

lemma top_loop_None: "top_loop h t None = Some t"
  by (subst top_loop.simps) simp

lemma top_loop_Some: "top_loop h t (Some p) = top_loop h p (parent (cells h p))"
  by (subst top_loop.simps) simp

lemma derived_top:
  assumes "derived h root r"
  shows "Recorder_top h r = Some root"
  using assms
  by (induction rule: derived.induct) (simp_all add: Recorder_top_def top_loop_None top_loop_Some)

lemma derived_cong:
  assumes "derived h root r" "\<And>q. parent (cells h' q) = parent (cells h q)"
  shows "derived h' root r"
  using assms
proof (induction rule: derived.induct)
  case (derived_root h root)
  then show ?case by (simp add: derived.derived_root)
next
  case (derived_child h root p r)
  then show ?case by (metis derived.derived_child)
qed

lemma derived_le:
  assumes "derived h root r" "wf_heap h" "r < fresh h"
  shows "root \<le> r"
  using assms
proof (induction rule: derived.induct)
  case (derived_root h root)
  then show ?case by simp
next
  case (derived_child h root p r)
  then have "p < r" by (auto simp: wf_heap_def)
  with derived_child show ?case by simp
qed

lemma wf_heap_has_root:
  assumes "wf_heap h" "r < fresh h"
  shows "\<exists>root. derived h root r"
  using assms(2)
proof (induction r rule: less_induct)
  case (less r)
  show ?case
  proof (cases "parent (cells h r)")
    case None
    then show ?thesis by (auto intro: derived_root)
  next
    case (Some p)
    with assms(1) less.prems have "p < r" by (auto simp: wf_heap_def)
    with less.prems have "p < fresh h" by simp
    from less.IH [OF \<open>p < r\<close> this] obtain root where "derived h root p" ..
    with Some show ?thesis by (blast intro: derived_child)
  qed
qed

lemma derived_alloc:
  assumes "derived h root r" "wf_heap h" "r < fresh h" "alloc h v = (a, h')"
  shows "derived h' root r"
  using assms
proof (induction rule: derived.induct)
  case (derived_root h root)
  then show ?case by (auto simp: alloc_def intro!: derived.derived_root)
next
  case (derived_child h root p r)
  then have "p < r" by (auto simp: wf_heap_def)
  with derived_child have "derived h' root p" by simp
  moreover from derived_child have "parent (cells h' r) = Some p"
    by (auto simp: alloc_def)
  ultimately show ?case by (rule derived.derived_child)
qed

lemma wf_heap_alloc:
  assumes "wf_heap h" "alloc h v = (a, h')" "\<And>p. parent v = Some p \<Longrightarrow> p < fresh h"
  shows "wf_heap h'" "a = fresh h" "fresh h' = Suc (fresh h)" "cells h' a = v"
    "\<And>q. q \<noteq> a \<Longrightarrow> cells h' q = cells h q"
  using assms by (auto simp: wf_heap_def alloc_def less_Suc_eq)

lemma wf_heap_empty: "wf_heap heap_empty"
  by (simp add: wf_heap_def heap_empty_def)

lemma Recorder_record_derived:
  assumes "derived h root r"
  shows "Recorder_record h r lvl str args =
    Some (h\<lparr>cells := (cells h)(root := (cells h root)\<lparr>entries := entries (cells h root) @
      [\<lparr>Level = lvl, Str = str, Args = args, Fields = rfields (cells h r)\<rparr>]\<rparr>)\<rparr>)"
  by (simp add: Recorder_record_def derived_top [OF assms])

lemma Recorder_Entries_derived:
  assumes "derived h root r"
  shows "Recorder_Entries h r = Some (entries (cells h root))"
  by (simp add: Recorder_Entries_def derived_top [OF assms])

lemma Recorder_Sync_derived:
  assumes "derived h root r"
  shows "Recorder_Sync h r = Some (h\<lparr>cells := (cells h)(root := (cells h root)\<lparr>syncCalled := True\<rparr>)\<rparr>)"
  by (simp add: Recorder_Sync_def derived_top [OF assms])

lemma Recorder_SyncCalled_derived:
  assumes "derived h root r"
  shows "Recorder_SyncCalled h r = Some (syncCalled (cells h root))"
  by (simp add: Recorder_SyncCalled_def derived_top [OF assms])

text \<open>Writing the entries or the flag of a cell moves no parent pointer.\<close>

lemma derived_entries_update:
  assumes "derived h root r"
  shows "derived (h\<lparr>cells := (cells h)(t := (cells h t)\<lparr>entries := es\<rparr>)\<rparr>) root r"
  by (rule derived_cong [OF assms]) simp

lemma derived_sync_update:
  assumes "derived h root r"
  shows "derived (h\<lparr>cells := (cells h)(t := (cells h t)\<lparr>syncCalled := b\<rparr>)\<rparr>) root r"
  by (rule derived_cong [OF assms]) simp

lemma log_seq_derived:
  assumes "\<forall>e \<in> set es. derived h root (fst e)"
  shows "\<exists>h'. log_seq h es = Some h'
    \<and> entries (cells h' root) = entries (cells h root) @
        map (\<lambda>(r, lvl, str, args). \<lparr>Level = lvl, Str = str, Args = args, Fields = rfields (cells h r)\<rparr>) es
    \<and> (\<forall>q. q \<noteq> root \<longrightarrow> cells h' q = cells h q)
    \<and> (\<forall>q. parent (cells h' q) = parent (cells h q))
    \<and> (\<forall>q. rfields (cells h' q) = rfields (cells h q))"
  using assms
proof (induction es arbitrary: h)
  case Nil
  then show ?case by simp
next
  case (Cons e es)
  obtain r lvl str args where e: "e = (r, lvl, str, args)"
    by (cases e) auto
  let ?ent = "\<lparr>Level = lvl, Str = str, Args = args, Fields = rfields (cells h r)\<rparr>"
  let ?h1 = "h\<lparr>cells := (cells h)(root := (cells h root)\<lparr>entries := entries (cells h root) @ [?ent]\<rparr>)\<rparr>"
  from Cons.prems e have d: "derived h root r" by simp
  then have step: "Recorder_Logf h r lvl str args = Some ?h1"
    by (simp add: Recorder_Logf_def Recorder_record_derived)
  have "\<forall>e \<in> set es. derived ?h1 root (fst e)"
    using Cons.prems by (auto intro: derived_entries_update)
  from Cons.IH [OF this] obtain h' where h': "log_seq ?h1 es = Some h'"
    "entries (cells h' root) = entries (cells ?h1 root) @
        map (\<lambda>(r, lvl, str, args). \<lparr>Level = lvl, Str = str, Args = args, Fields = rfields (cells ?h1 r)\<rparr>) es"
    "\<forall>q. q \<noteq> root \<longrightarrow> cells h' q = cells ?h1 q"
    "\<forall>q. parent (cells h' q) = parent (cells ?h1 q)"
    "\<forall>q. rfields (cells h' q) = rfields (cells ?h1 q)"
    by blast
  have same: "rfields (cells ?h1 q) = rfields (cells h q)" for q
    by simp
  have "log_seq h (e # es) = Some h'"
    using step h'(1) e by simp
  moreover have "entries (cells h' root) = entries (cells h root) @
        map (\<lambda>(r, lvl, str, args). \<lparr>Level = lvl, Str = str, Args = args, Fields = rfields (cells h r)\<rparr>) (e # es)"
    unfolding h'(2) same using e by simp
  moreover have "\<forall>q. q \<noteq> root \<longrightarrow> cells h' q = cells h q"
    using h'(3) by simp
  moreover have "\<forall>q. parent (cells h' q) = parent (cells h q)"
    using h'(4) by simp
  moreover have "\<forall>q. rfields (cells h' q) = rfields (cells h q)"
    using h'(5) by simp
  ultimately show ?case by blast
qed

text \<open>
  C5. In the chain of a root, \<^verbatim>\<open>Log\<close> and \<^verbatim>\<open>Logf\<close> on any Recorder append the entry to
  the root's list and change no other cell, \<^verbatim>\<open>Entries\<close> on any Recorder of the chain
  returns the root's list, a sequence of emissions from Recorders of the chain leaves the
  entries in the order of emission, and after \<^verbatim>\<open>Sync\<close> on any Recorder of the chain
  \<^verbatim>\<open>SyncCalled\<close> is true on every Recorder of the chain.
\<close>

theorem Recorder_chain_invariant:
  assumes "derived h root r" "derived h root r'"
  shows "Recorder_Entries h r' = Some (entries (cells h root))
    \<and> Recorder_Log h r lvl args = Recorder_Logf h r lvl '''' args
    \<and> (\<exists>h'. Recorder_Logf h r lvl str args = Some h'
          \<and> entries (cells h' root) = entries (cells h root) @
              [\<lparr>Level = lvl, Str = str, Args = args, Fields = rfields (cells h r)\<rparr>]
          \<and> (\<forall>q. q \<noteq> root \<longrightarrow> cells h' q = cells h q)
          \<and> Recorder_Entries h' r' = Some (entries (cells h' root)))
    \<and> ((\<forall>e \<in> set es. derived h root (fst e)) \<longrightarrow>
         (\<exists>h'. log_seq h es = Some h'
           \<and> Recorder_Entries h' r' = Some (entries (cells h root) @
               map (\<lambda>(r, lvl, str, args).
                 \<lparr>Level = lvl, Str = str, Args = args, Fields = rfields (cells h r)\<rparr>) es)))
    \<and> (\<exists>h'. Recorder_Sync h r = Some h'
          \<and> Recorder_SyncCalled h' r' = Some True \<and> Recorder_SyncCalled h' r = Some True)"
proof (intro conjI impI)
  show "Recorder_Entries h r' = Some (entries (cells h root))"
    by (rule Recorder_Entries_derived [OF assms(2)])
  show "Recorder_Log h r lvl args = Recorder_Logf h r lvl '''' args"
    by (simp add: Recorder_Log_def Recorder_Logf_def)
  let ?e = "\<lparr>Level = lvl, Str = str, Args = args, Fields = rfields (cells h r)\<rparr>"
  let ?h1 = "h\<lparr>cells := (cells h)(root := (cells h root)\<lparr>entries := entries (cells h root) @ [?e]\<rparr>)\<rparr>"
  have "Recorder_Logf h r lvl str args = Some ?h1"
    by (simp add: Recorder_Logf_def Recorder_record_derived [OF assms(1)])
  moreover have "Recorder_Entries ?h1 r' = Some (entries (cells ?h1 root))"
    by (rule Recorder_Entries_derived [OF derived_entries_update [OF assms(2)]])
  ultimately show "\<exists>h'. Recorder_Logf h r lvl str args = Some h'
          \<and> entries (cells h' root) = entries (cells h root) @ [?e]
          \<and> (\<forall>q. q \<noteq> root \<longrightarrow> cells h' q = cells h q)
          \<and> Recorder_Entries h' r' = Some (entries (cells h' root))"
    by simp
  let ?h2 = "h\<lparr>cells := (cells h)(root := (cells h root)\<lparr>syncCalled := True\<rparr>)\<rparr>"
  have "Recorder_Sync h r = Some ?h2"
    by (rule Recorder_Sync_derived [OF assms(1)])
  moreover have "Recorder_SyncCalled ?h2 r' = Some True" "Recorder_SyncCalled ?h2 r = Some True"
    using Recorder_SyncCalled_derived [OF derived_sync_update [OF assms(1)], of root True]
      Recorder_SyncCalled_derived [OF derived_sync_update [OF assms(2)], of root True]
    by simp_all
  ultimately show "\<exists>h'. Recorder_Sync h r = Some h'
          \<and> Recorder_SyncCalled h' r' = Some True \<and> Recorder_SyncCalled h' r = Some True"
    by simp
next
  assume all: "\<forall>e \<in> set es. derived h root (fst e)"
  from log_seq_derived [OF this] obtain h' where h': "log_seq h es = Some h'"
    "entries (cells h' root) = entries (cells h root) @
        map (\<lambda>(r, lvl, str, args). \<lparr>Level = lvl, Str = str, Args = args, Fields = rfields (cells h r)\<rparr>) es"
    "\<forall>q. parent (cells h' q) = parent (cells h q)"
    by blast
  from h'(3) have "derived h' root r'"
    by (intro derived_cong [OF assms(2)]) simp
  from Recorder_Entries_derived [OF this] h'(1,2)
  show "\<exists>h'. log_seq h es = Some h'
           \<and> Recorder_Entries h' r' = Some (entries (cells h root) @
               map (\<lambda>(r, lvl, str, args).
                 \<lparr>Level = lvl, Str = str, Args = args, Fields = rfields (cells h r)\<rparr>) es)"
    by simp
qed

text \<open>
  C1. A Logger whose writer is a Recorder returns at once, with the store as it was,
  when the level is below its own; at its own level or above, \<^verbatim>\<open>Log\<close> and \<^verbatim>\<open>Logf\<close>
  are the Recorder's \<^verbatim>\<open>Log\<close> and \<^verbatim>\<open>Logf\<close> on the same arguments, and the Recorder
  gains exactly one entry, the one of this call.
\<close>

theorem Logger_level_filter:
  assumes "writer l = Some (RecorderW r)" "derived h root r"
  shows "(lvl < level l \<longrightarrow>
           Logger_Log l lvl args h = Some h \<and> Logger_Logf l lvl str args h = Some h)
    \<and> (level l \<le> lvl \<longrightarrow>
           Logger_Log l lvl args h = Recorder_Log h r lvl args
         \<and> Logger_Logf l lvl str args h = Recorder_Logf h r lvl str args
         \<and> (\<exists>h'. Logger_Log l lvl args h = Some h'
               \<and> Recorder_Entries h' r = Some (entries (cells h root) @
                   [\<lparr>Level = lvl, Str = '''', Args = args, Fields = rfields (cells h r)\<rparr>]))
         \<and> (\<exists>h'. Logger_Logf l lvl str args h = Some h'
               \<and> Recorder_Entries h' r = Some (entries (cells h root) @
                   [\<lparr>Level = lvl, Str = str, Args = args, Fields = rfields (cells h r)\<rparr>])))"
proof (intro conjI impI)
  assume "lvl < level l"
  then show "Logger_Log l lvl args h = Some h" "Logger_Logf l lvl str args h = Some h"
    by (simp_all add: Logger_Log_def Logger_Logf_def)
next
  assume "level l \<le> lvl"
  then have pass: "\<not> lvl < level l" by simp
  have inner: "innerWriter l = RecorderW r"
    by (simp add: innerWriter_def assms(1))
  show fwd: "Logger_Log l lvl args h = Recorder_Log h r lvl args"
    by (simp add: Logger_Log_def pass inner Writer_Log_def)
  show fwdf: "Logger_Logf l lvl str args h = Recorder_Logf h r lvl str args"
    by (simp add: Logger_Logf_def pass inner Writer_Logf_def)
  have rec: "\<exists>h'. Recorder_record h r lvl s args = Some h'
     \<and> Recorder_Entries h' r = Some (entries (cells h root) @
          [\<lparr>Level = lvl, Str = s, Args = args, Fields = rfields (cells h r)\<rparr>])" for s
    using Recorder_Entries_derived [OF derived_entries_update [OF assms(2)]]
    by (simp add: Recorder_record_derived [OF assms(2)])
  from rec [of "''''"] show "\<exists>h'. Logger_Log l lvl args h = Some h'
      \<and> Recorder_Entries h' r = Some (entries (cells h root) @
          [\<lparr>Level = lvl, Str = '''', Args = args, Fields = rfields (cells h r)\<rparr>])"
    by (simp add: fwd Recorder_Log_def)
  from rec [of str] show "\<exists>h'. Logger_Logf l lvl str args h = Some h'
      \<and> Recorder_Entries h' r = Some (entries (cells h root) @
          [\<lparr>Level = lvl, Str = str, Args = args, Fields = rfields (cells h r)\<rparr>])"
    by (simp add: fwdf Recorder_Logf_def)
qed

lemma Recorder_With_derived:
  assumes "derived h root r" "wf_heap h" "r < fresh h" "Recorder_With h r fs = (c, h')"
  shows "derived h' root c" "wf_heap h'" "c < fresh h'" "derived h' root r"
    "rfields (cells h' c) = rfields (cells h r) @ fs"
    "\<And>q. q < fresh h \<Longrightarrow> cells h' q = cells h q" "fresh h' = Suc (fresh h)" "c = fresh h"
    "\<And>q rt. derived h rt q \<Longrightarrow> q < fresh h \<Longrightarrow> derived h' rt q"
proof -
  let ?v = "Recorder_zero\<lparr>parent := Some r, rfields := [] @ ([] @ rfields (cells h r)) @ fs\<rparr>"
  from assms(4) have al: "alloc h ?v = (c, h')"
    by (simp add: Recorder_With_def Recorder_clone_def)
  have par: "\<And>p. parent ?v = Some p \<Longrightarrow> p < fresh h"
    using assms(3) by simp
  note facts = wf_heap_alloc [OF assms(2) al par]
  show "wf_heap h'" "c = fresh h" "fresh h' = Suc (fresh h)"
    using facts(1,2,3) by simp_all
  then show "c < fresh h'" by simp
  show "derived h' rt q" if "derived h rt q" "q < fresh h" for q rt
    by (rule derived_alloc [OF that(1) assms(2) that(2) al])
  show r: "derived h' root r"
    by (rule derived_alloc [OF assms(1,2,3) al])
  have "parent (cells h' c) = Some r"
    using facts(4) by simp
  with r show "derived h' root c"
    by (rule derived_child)
  show "rfields (cells h' c) = rfields (cells h r) @ fs"
    using facts(4) by simp
  show "cells h' q = cells h q" if "q < fresh h" for q
    using facts(5) [of q] facts(2) that by simp
qed

text \<open>
  C6, as amended. After \<^verbatim>\<open>With(f1)\<close> and then \<^verbatim>\<open>With(f2)\<close> on a Recorder writer, the
  entry of the next \<^verbatim>\<open>Log\<close> or \<^verbatim>\<open>Logf\<close> carries the fields the writer was already
  bound to, then \<open>f1\<close>, then \<open>f2\<close>; for a writer bound to no fields, as a new Recorder
  is, that is \<open>f1 @ f2\<close>.
\<close>

theorem Recorder_With_concatenates:
  assumes "derived h root r" "wf_heap h" "r < fresh h"
    "Writer_With (RecorderW r) f1 h = (w1, h1)" "Writer_With w1 f2 h1 = (w2, h2)"
  shows "(\<exists>h3. Writer_Logf w2 lvl str args h2 = Some h3
          \<and> Recorder_Entries h3 r = Some (entries (cells h root) @
              [\<lparr>Level = lvl, Str = str, Args = args, Fields = rfields (cells h r) @ f1 @ f2\<rparr>]))
    \<and> (\<exists>h3. Writer_Log w2 lvl args h2 = Some h3
          \<and> Recorder_Entries h3 r = Some (entries (cells h root) @
              [\<lparr>Level = lvl, Str = '''', Args = args, Fields = rfields (cells h r) @ f1 @ f2\<rparr>]))
    \<and> (rfields (cells h r) = [] \<longrightarrow>
         (\<exists>h3 e. Writer_Logf w2 lvl str args h2 = Some h3
          \<and> Recorder_Entries h3 r = Some (entries (cells h root) @ [e]) \<and> Fields e = f1 @ f2))"
proof -
  obtain c1 where c1: "Recorder_With h r f1 = (c1, h1)" "w1 = RecorderW c1"
    using assms(4) by (auto simp: Writer_With_def split: prod.splits)
  obtain c2 where c2: "Recorder_With h1 c1 f2 = (c2, h2)" "w2 = RecorderW c2"
    using assms(5) c1(2) by (auto simp: Writer_With_def split: prod.splits)
  note s1 = Recorder_With_derived [OF assms(1,2,3) c1(1)]
  note s2 = Recorder_With_derived [OF s1(1,2,3) c2(1)]
  have root_lt: "root < fresh h"
    using derived_le [OF assms(1,2,3)] assms(3) by simp
  have fs: "rfields (cells h2 c2) = rfields (cells h r) @ f1 @ f2"
    using s2(5) s1(5) by simp
  have "cells h2 root = cells h1 root"
    using s2(6) [of root] root_lt s1(7) by simp
  then have ents: "entries (cells h2 root) = entries (cells h root)"
    using s1(6) [of root] root_lt by simp
  have r2: "derived h2 root r"
    by (rule s2(9) [OF s1(4)]) (use assms(3) s1(7) in simp)
  have rec: "\<exists>h3. Recorder_record h2 c2 lvl s args = Some h3
     \<and> Recorder_Entries h3 r = Some (entries (cells h root) @
          [\<lparr>Level = lvl, Str = s, Args = args, Fields = rfields (cells h r) @ f1 @ f2\<rparr>])" for s
    using Recorder_Entries_derived [OF derived_entries_update [OF r2]]
    by (simp add: Recorder_record_derived [OF s2(1)] fs ents)
  have logf: "\<exists>h3. Writer_Logf w2 lvl str args h2 = Some h3
          \<and> Recorder_Entries h3 r = Some (entries (cells h root) @
              [\<lparr>Level = lvl, Str = str, Args = args, Fields = rfields (cells h r) @ f1 @ f2\<rparr>])"
    using rec [of str] by (simp add: c2(2) Writer_Logf_def Recorder_Logf_def)
  have log: "\<exists>h3. Writer_Log w2 lvl args h2 = Some h3
          \<and> Recorder_Entries h3 r = Some (entries (cells h root) @
              [\<lparr>Level = lvl, Str = '''', Args = args, Fields = rfields (cells h r) @ f1 @ f2\<rparr>])"
    using rec [of "''''"] by (simp add: c2(2) Writer_Log_def Recorder_Log_def)
  have "\<exists>h3 e. Writer_Logf w2 lvl str args h2 = Some h3
          \<and> Recorder_Entries h3 r = Some (entries (cells h root) @ [e]) \<and> Fields e = f1 @ f2"
    if "rfields (cells h r) = []"
  proof -
    from logf obtain h3 where "Writer_Logf w2 lvl str args h2 = Some h3"
      "Recorder_Entries h3 r = Some (entries (cells h root) @
              [\<lparr>Level = lvl, Str = str, Args = args, Fields = rfields (cells h r) @ f1 @ f2\<rparr>])"
      by blast
    with that show ?thesis by auto
  qed
  with logf log show ?thesis by blast
qed

lemma heap_one_facts:
  "wf_heap heap_one" "fresh heap_one = 1" "derived heap_one 0 0"
  "entries (cells heap_one 0) = []" "rfields (cells heap_one 0) = []"
proof -
  show "wf_heap heap_one"
    by (simp add: wf_heap_def heap_one_def Recorder_new_def alloc_def heap_empty_def Recorder_zero_def)
  show "fresh heap_one = 1"
    by (simp add: heap_one_def Recorder_new_def alloc_def heap_empty_def)
  have "parent (cells heap_one 0) = None"
    by (simp add: heap_one_def Recorder_new_def alloc_def heap_empty_def Recorder_zero_def)
  then show "derived heap_one 0 0"
    by (rule derived_root)
  show "entries (cells heap_one 0) = []" "rfields (cells heap_one 0) = []"
    by (simp_all add: heap_one_def Recorder_new_def alloc_def heap_empty_def Recorder_zero_def)
qed

theorem Logger_level_filter_witness:
  "Logger_Log (NewWithWriter (Config_zero\<lparr>cfgLevel := WarningLevel\<rparr>) (Some (RecorderW 0)))
      InfoLevel [VStr ''a''] heap_one = Some heap_one
   \<and> (\<exists>h'. Logger_Logf (NewWithWriter (Config_zero\<lparr>cfgLevel := WarningLevel\<rparr>) (Some (RecorderW 0)))
        WarningLevel ''%s'' [VStr ''a''] heap_one = Some h'
      \<and> Recorder_Entries h' 0 =
          Some [\<lparr>Level = WarningLevel, Str = ''%s'', Args = [VStr ''a''], Fields = []\<rparr>])"
proof -
  let ?l = "NewWithWriter (Config_zero\<lparr>cfgLevel := WarningLevel\<rparr>) (Some (RecorderW 0))"
  have w: "writer ?l = Some (RecorderW 0)" and lv: "level ?l = WarningLevel"
    by (simp_all add: NewWithWriter_def Config_zero_def Let_def)
  have cmp: "InfoLevel < level ?l" "level ?l \<le> WarningLevel"
    unfolding lv by (simp_all add: Level_defs)
  from Logger_level_filter [OF w heap_one_facts(3), of InfoLevel "[VStr ''a'']" "''%s''"] cmp(1)
  have below: "Logger_Log ?l InfoLevel [VStr ''a''] heap_one = Some heap_one"
    by blast
  from Logger_level_filter [OF w heap_one_facts(3), of WarningLevel "[VStr ''a'']" "''%s''"] cmp(2)
  have "\<exists>h'. Logger_Logf ?l WarningLevel ''%s'' [VStr ''a''] heap_one = Some h'
      \<and> Recorder_Entries h' 0 = Some (entries (cells heap_one 0) @
          [\<lparr>Level = WarningLevel, Str = ''%s'', Args = [VStr ''a''],
            Fields = rfields (cells heap_one 0)\<rparr>])"
    by blast
  with below show ?thesis
    by (simp add: heap_one_facts)
qed

theorem Recorder_With_concatenates_witness:
  "\<exists>w1 h1 w2 h2 h3.
      Writer_With (RecorderW 0) [VStr ''k1'', VStr ''v1''] heap_one = (w1, h1)
    \<and> Writer_With w1 [VStr ''k2'', VInt 2] h1 = (w2, h2)
    \<and> Writer_Log w2 InfoLevel [VStr ''m''] h2 = Some h3
    \<and> Recorder_Entries h3 0 = Some [\<lparr>Level = InfoLevel, Str = '''', Args = [VStr ''m''],
         Fields = [VStr ''k1'', VStr ''v1'', VStr ''k2'', VInt 2]\<rparr>]"
proof -
  obtain w1 h1 where 1: "Writer_With (RecorderW 0) [VStr ''k1'', VStr ''v1''] heap_one = (w1, h1)"
    by (cases "Writer_With (RecorderW 0) [VStr ''k1'', VStr ''v1''] heap_one")
  obtain w2 h2 where 2: "Writer_With w1 [VStr ''k2'', VInt 2] h1 = (w2, h2)"
    by (cases "Writer_With w1 [VStr ''k2'', VInt 2] h1")
  have lt: "0 < fresh heap_one"
    by (simp add: heap_one_facts)
  from Recorder_With_concatenates [OF heap_one_facts(3,1) lt 1 2, of InfoLevel _ "[VStr ''m'']"]
  show ?thesis
    using 1 2 by (simp add: heap_one_facts)
qed

text \<open>
  The claim as it was written gives \<open>f1 @ f2\<close> for every Recorder writer. The writer
  \<^verbatim>\<open>rec.With("x")\<close> of a new Recorder is bound to the field \<^verbatim>\<open>x\<close>, and after
  \<^verbatim>\<open>With("a")\<close> and \<^verbatim>\<open>With("b")\<close> the entry it records carries \<^verbatim>\<open>x\<close>, \<^verbatim>\<open>a\<close>, \<^verbatim>\<open>b\<close>.
\<close>

declare top_loop.simps [code]

theorem Recorder_With_bound_fields_counterexample:
  "(let (w, h) = Writer_With (RecorderW 0) [VStr ''x''] heap_one;
        (w1, h1) = Writer_With w [VStr ''a''] h;
        (w2, h2) = Writer_With w1 [VStr ''b''] h1
    in case Writer_Log w2 InfoLevel [VStr ''m''] h2 of
         None \<Rightarrow> None
       | Some h3 \<Rightarrow> Recorder_Entries h3 0)
   = Some [\<lparr>Level = InfoLevel, Str = '''', Args = [VStr ''m''],
            Fields = [VStr ''x'', VStr ''a'', VStr ''b'']\<rparr>]
   \<and> [VStr ''x'', VStr ''a'', VStr ''b''] \<noteq> [VStr ''a''] @ [VStr ''b'']"
  by code_simp

theorem Recorder_chain_invariant_witness:
  "\<exists>c h1 h2 h3.
      Recorder_With heap_one 0 [VStr ''k''] = (c, h1)
    \<and> Recorder_Sync h1 c = Some h2 \<and> Recorder_SyncCalled h2 0 = Some True
    \<and> log_seq h1 [(c, InfoLevel, '''', [VStr ''x'']), (0, ErrorLevel, ''f'', [])] = Some h3
    \<and> Recorder_Entries h3 c =
        Some [\<lparr>Level = InfoLevel, Str = '''', Args = [VStr ''x''], Fields = [VStr ''k'']\<rparr>,
              \<lparr>Level = ErrorLevel, Str = ''f'', Args = [], Fields = []\<rparr>]"
proof -
  obtain c h1 where 1: "Recorder_With heap_one 0 [VStr ''k''] = (c, h1)"
    by (cases "Recorder_With heap_one 0 [VStr ''k'']")
  have lt: "0 < fresh heap_one"
    by (simp add: heap_one_facts)
  note w = Recorder_With_derived [OF heap_one_facts(3,1) lt 1]
  have cells: "rfields (cells h1 c) = [VStr ''k'']" "rfields (cells h1 0) = []"
    "entries (cells h1 0) = []"
    using w(5) w(6) [of 0] by (simp_all add: heap_one_facts)
  let ?es = "[(c, InfoLevel, '''', [VStr ''x'']), (0, ErrorLevel, ''f'', [])]"
  have all: "\<forall>e \<in> set ?es. derived h1 0 (fst e)"
    using w(1,4) by simp
  from Recorder_chain_invariant [OF w(1) w(4), of InfoLevel "[]" "''''" "[]"]
  obtain h2 where sync: "Recorder_Sync h1 c = Some h2" "Recorder_SyncCalled h2 0 = Some True"
    by blast
  from Recorder_chain_invariant [OF w(1) w(1), of InfoLevel "[]" "''''" ?es] all
  obtain h3 where "log_seq h1 ?es = Some h3"
    "Recorder_Entries h3 c = Some (entries (cells h1 0) @
       map (\<lambda>(r, lvl, str, args).
         \<lparr>Level = lvl, Str = str, Args = args, Fields = rfields (cells h1 r)\<rparr>) ?es)"
    by blast
  with 1 sync show ?thesis
    by (simp add: cells)
qed

lemma noop_run_call:
  assumes "innerWriter l = noOpLogger"
  shows "\<exists>l'. run_call c (l, h) = Some (l', h) \<and> innerWriter l' = noOpLogger"
proof (cases c)
  case (CallWith fs)
  then show ?thesis
    using assms
    by (simp add: Logger_With_def Writer_With_def Logger_clone_def innerWriter_def)
qed (use assms in \<open>simp_all add: Logger_Log_def Logger_Logf_def Logger_Sync_def
       Writer_Log_def Writer_Logf_def Writer_Sync_def\<close>)

lemma noop_run_calls:
  assumes "innerWriter l = noOpLogger"
  shows "\<exists>l'. run_calls cs (l, h) = Some (l', h) \<and> innerWriter l' = noOpLogger"
  using assms
proof (induction cs arbitrary: l)
  case Nil
  then show ?case by simp
next
  case (Cons c cs)
  from noop_run_call [OF Cons.prems, of c h] obtain l1
    where "run_call c (l, h) = Some (l1, h)" "innerWriter l1 = noOpLogger"
    by blast
  with Cons.IH [of l1] show ?case by simp
qed

text \<open>
  C9. The zero Logger has no writer and resolves it to the no-op writer. Each of
  \<^verbatim>\<open>Log\<close>, \<^verbatim>\<open>Logf\<close> and \<^verbatim>\<open>Sync\<close> on it returns with the store as it was, \<^verbatim>\<open>With\<close>
  returns a Logger on the no-op writer, and every sequence of such calls runs to its end,
  leaves the store as it was and ends on a Logger that still resolves to the no-op
  writer.
\<close>

theorem zero_Logger_never_faults:
  "writer Logger_zero = None
   \<and> innerWriter Logger_zero = noOpWriter
   \<and> Logger_Log Logger_zero lvl args h = Some h
   \<and> Logger_Logf Logger_zero lvl str args h = Some h
   \<and> Logger_Sync Logger_zero h = Some h
   \<and> Logger_With Logger_zero fs h = (Logger_zero\<lparr>writer := Some noOpWriter\<rparr>, h)
   \<and> (\<exists>l'. run_calls cs (Logger_zero, h) = Some (l', h) \<and> innerWriter l' = noOpWriter)"
proof -
  have inner: "innerWriter Logger_zero = noOpLogger"
    by (simp add: innerWriter_def Logger_zero_def noOpWriter_def)
  from noop_run_calls [OF this]
  have "\<exists>l'. run_calls cs (Logger_zero, h) = Some (l', h) \<and> innerWriter l' = noOpWriter"
    by (simp add: noOpWriter_def)
  moreover have "Logger_With Logger_zero fs h = (Logger_zero\<lparr>writer := Some noOpWriter\<rparr>, h)"
    by (simp add: Logger_With_def inner Writer_With_def Logger_clone_def)
      (simp add: Logger_zero_def noOpWriter_def)
  ultimately show ?thesis
    using inner
    by (simp add: Logger_Log_def Logger_Logf_def Logger_Sync_def Writer_Log_def Writer_Logf_def
        Writer_Sync_def noOpWriter_def Logger_zero_def)
qed

lemma collect_fields_concat:
  "collect_fields ms ctx fs = fs @ concat (map (\<lambda>m. m ctx) ms)"
  by (induction ms arbitrary: fs) (simp_all add: Let_def)

lemma Logger_WithContext_concat:
  "Logger_WithContext l ctx h =
     (if concat (map (\<lambda>m. m ctx) (ctxMiddlewares l)) = [] then (l, h)
      else Logger_With l (concat (map (\<lambda>m. m ctx) (ctxMiddlewares l))) h)"
  by (simp add: Logger_WithContext_def collect_fields_concat Let_def)

lemma RequestIDMiddleware_NewContext:
  "RequestIDMiddleware (NewContext ctx reqID) =
     (if reqID = '''' then [] else [VStr ''request_id'', VStr reqID])"
  by (simp add: RequestIDMiddleware_def FromContext_def NewContext_def Let_def)

lemma RequestIDMiddleware_unbound:
  "ctx requestIDKey = None \<Longrightarrow> RequestIDMiddleware ctx = []"
  by (simp add: RequestIDMiddleware_def FromContext_def Let_def)

lemma Logger_Log_Recorder:
  assumes "writer l = Some (RecorderW r)" "derived h root r" "level l \<le> lvl"
  shows "Logger_Log l lvl args h = Recorder_Log h r lvl args"
    "Logger_Logf l lvl str args h = Recorder_Logf h r lvl str args"
    "\<exists>h'. Recorder_record h r lvl s args = Some h'
       \<and> Recorder_Entries h' r' = (if derived h root r' then Some (entries (cells h root) @
          [\<lparr>Level = lvl, Str = s, Args = args, Fields = rfields (cells h r)\<rparr>]) else Recorder_Entries h' r')"
proof -
  from assms(3) have pass: "\<not> lvl < level l" by simp
  have inner: "innerWriter l = RecorderW r"
    by (simp add: innerWriter_def assms(1))
  show "Logger_Log l lvl args h = Recorder_Log h r lvl args"
    by (simp add: Logger_Log_def pass inner Writer_Log_def)
  show "Logger_Logf l lvl str args h = Recorder_Logf h r lvl str args"
    by (simp add: Logger_Logf_def pass inner Writer_Logf_def)
  show "\<exists>h'. Recorder_record h r lvl s args = Some h'
       \<and> Recorder_Entries h' r' = (if derived h root r' then Some (entries (cells h root) @
          [\<lparr>Level = lvl, Str = s, Args = args, Fields = rfields (cells h r)\<rparr>]) else Recorder_Entries h' r')"
    using Recorder_Entries_derived [OF derived_entries_update, of h root r']
    by (simp add: Recorder_record_derived [OF assms(2)])
qed

text \<open>
  C8. \<^verbatim>\<open>WithContext\<close> concatenates what the middlewares return, in their order, and
  returns the receiver itself when that is empty. With the default middleware and a
  context that binds no request id it returns the receiver, writer and store untouched.
  On a Logger built by \<^verbatim>\<open>NewWithWriter\<close> on a Recorder, default middlewares kept, and a
  context from \<^verbatim>\<open>NewContext\<close> with a non-empty request id, the next entry's fields end
  with \<^verbatim>\<open>"request_id"\<close> and the id.
\<close>

theorem Logger_WithContext_request_id:
  "Logger_WithContext l ctx h =
     (if concat (map (\<lambda>m. m ctx) (ctxMiddlewares l)) = [] then (l, h)
      else Logger_With l (concat (map (\<lambda>m. m ctx) (ctxMiddlewares l))) h)
   \<and> (ctxMiddlewares l = DefaultMiddlewares \<and> ctx requestIDKey = None \<longrightarrow>
        Logger_WithContext l ctx h = (l, h))
   \<and> (\<not> cfgSkipDefaultMiddlewares cfg \<and> reqID \<noteq> '''' \<and> derived h root r \<and> wf_heap h
        \<and> r < fresh h \<and> cfgLevel cfg \<le> lvl \<longrightarrow>
        (\<exists>l' h' h''.
           Logger_WithContext (NewWithWriter cfg (Some (RecorderW r))) (NewContext ctx0 reqID) h = (l', h')
         \<and> Logger_Log l' lvl args h' = Some h''
         \<and> Recorder_Entries h'' r = Some (entries (cells h root) @
             [\<lparr>Level = lvl, Str = '''', Args = args,
               Fields = rfields (cells h r)
                 @ concat (map (\<lambda>m. m (NewContext ctx0 reqID)) (cfgCtxMiddlewares cfg))
                 @ [VStr ''request_id'', VStr reqID]\<rparr>])))"
proof (intro conjI impI)
  show "Logger_WithContext l ctx h =
     (if concat (map (\<lambda>m. m ctx) (ctxMiddlewares l)) = [] then (l, h)
      else Logger_With l (concat (map (\<lambda>m. m ctx) (ctxMiddlewares l))) h)"
    by (rule Logger_WithContext_concat)
next
  assume "ctxMiddlewares l = DefaultMiddlewares \<and> ctx requestIDKey = None"
  then show "Logger_WithContext l ctx h = (l, h)"
    by (simp add: Logger_WithContext_concat DefaultMiddlewares_def RequestIDMiddleware_unbound)
next
  assume a: "\<not> cfgSkipDefaultMiddlewares cfg \<and> reqID \<noteq> '''' \<and> derived h root r \<and> wf_heap h
        \<and> r < fresh h \<and> cfgLevel cfg \<le> lvl"
  let ?l = "NewWithWriter cfg (Some (RecorderW r))"
  let ?ctx = "NewContext ctx0 reqID"
  let ?F = "concat (map (\<lambda>m. m ?ctx) (cfgCtxMiddlewares cfg)) @ [VStr ''request_id'', VStr reqID]"
  have l: "writer ?l = Some (RecorderW r)" "level ?l = cfgLevel cfg"
    "ctxMiddlewares ?l = cfgCtxMiddlewares cfg @ [RequestIDMiddleware]"
    using a by (simp_all add: NewWithWriter_def Let_def DefaultMiddlewares_def)
  have F: "concat (map (\<lambda>m. m ?ctx) (ctxMiddlewares ?l)) = ?F"
    using a by (simp add: l(3) RequestIDMiddleware_NewContext)
  obtain c h' where c: "Recorder_With h r ?F = (c, h')"
    by (cases "Recorder_With h r ?F")
  let ?l' = "Logger_clone ?l (RecorderW c)"
  have wc: "Logger_WithContext ?l ?ctx h = (?l', h')"
    unfolding Logger_WithContext_concat F
    by (simp add: Logger_With_def innerWriter_def l(1) Writer_With_def c)
  from a have d: "derived h root r" "wf_heap h" "r < fresh h" by simp_all
  note w = Recorder_With_derived [OF d c]
  have l': "writer ?l' = Some (RecorderW c)" "level ?l' \<le> lvl"
    using a by (simp_all add: Logger_clone_def l(2))
  have root_lt: "root < fresh h"
    using derived_le [OF d] d(3) by simp
  have ents: "entries (cells h' root) = entries (cells h root)"
    using w(6) [OF root_lt] by simp
  from Logger_Log_Recorder(3) [OF l'(1) w(1) l'(2), of "''''" args r] w(4)
  obtain h'' where "Recorder_record h' c lvl '''' args = Some h''"
    "Recorder_Entries h'' r = Some (entries (cells h' root) @
          [\<lparr>Level = lvl, Str = '''', Args = args, Fields = rfields (cells h' c)\<rparr>])"
    by auto
  then have "Logger_Log ?l' lvl args h' = Some h''"
    "Recorder_Entries h'' r = Some (entries (cells h root) @
       [\<lparr>Level = lvl, Str = '''', Args = args, Fields = rfields (cells h r) @ ?F\<rparr>])"
    using Logger_Log_Recorder(1) [OF l'(1) w(1) l'(2)]
    by (simp_all add: Recorder_Log_def ents w(5))
  with wc show "\<exists>l' h' h''.
           Logger_WithContext ?l ?ctx h = (l', h')
         \<and> Logger_Log l' lvl args h' = Some h''
         \<and> Recorder_Entries h'' r = Some (entries (cells h root) @
             [\<lparr>Level = lvl, Str = '''', Args = args,
               Fields = rfields (cells h r)
                 @ concat (map (\<lambda>m. m ?ctx) (cfgCtxMiddlewares cfg))
                 @ [VStr ''request_id'', VStr reqID]\<rparr>])"
    by auto
qed

theorem Logger_WithContext_request_id_witness:
  "Logger_WithContext (NewWithWriter Config_zero (Some (RecorderW 0))) Map.empty heap_one
     = (NewWithWriter Config_zero (Some (RecorderW 0)), heap_one)
   \<and> (\<exists>l' h' h''.
         Logger_WithContext (NewWithWriter Config_zero (Some (RecorderW 0)))
           (NewContext Map.empty ''abc-123'') heap_one = (l', h')
       \<and> Logger_Log l' InfoLevel [VStr ''hello''] h' = Some h''
       \<and> Recorder_Entries h'' 0 = Some [\<lparr>Level = InfoLevel, Str = '''', Args = [VStr ''hello''],
            Fields = [VStr ''request_id'', VStr ''abc-123'']\<rparr>])"
proof -
  let ?l = "NewWithWriter Config_zero (Some (RecorderW 0))"
  have mws: "ctxMiddlewares ?l = DefaultMiddlewares \<and> Map.empty requestIDKey = None"
    by (simp add: NewWithWriter_def Config_zero_def Let_def)
  have pre: "\<not> cfgSkipDefaultMiddlewares Config_zero \<and> ''abc-123'' \<noteq> '''' \<and> derived heap_one 0 0
     \<and> wf_heap heap_one \<and> 0 < fresh heap_one \<and> cfgLevel Config_zero \<le> InfoLevel"
    by (simp add: heap_one_facts Config_zero_def Level_defs)
  note inst = Logger_WithContext_request_id [of ?l Map.empty heap_one Config_zero "''abc-123''"
      0 0 InfoLevel Map.empty "[VStr ''hello'']"]
  from inst mws have unbound: "Logger_WithContext ?l Map.empty heap_one = (?l, heap_one)"
    by blast
  from inst pre obtain l' h' h'' where w:
    "Logger_WithContext ?l (NewContext Map.empty ''abc-123'') heap_one = (l', h')"
    "Logger_Log l' InfoLevel [VStr ''hello''] h' = Some h''"
    "Recorder_Entries h'' 0 = Some (entries (cells heap_one 0) @
       [\<lparr>Level = InfoLevel, Str = '''', Args = [VStr ''hello''],
         Fields = rfields (cells heap_one 0)
           @ concat (map (\<lambda>m. m (NewContext Map.empty ''abc-123'')) (cfgCtxMiddlewares Config_zero))
           @ [VStr ''request_id'', VStr ''abc-123'']\<rparr>])"
    by blast
  have "cfgCtxMiddlewares Config_zero = []"
    by (simp add: Config_zero_def)
  with w(3) have "Recorder_Entries h'' 0 = Some [\<lparr>Level = InfoLevel, Str = '''',
      Args = [VStr ''hello''], Fields = [VStr ''request_id'', VStr ''abc-123'']\<rparr>]"
    by (simp add: heap_one_facts)
  with unbound w(1,2) show ?thesis
    by blast
qed

lemma itoa_1: "itoa 1 = ''1''"
  by code_simp

lemma pad_debug: "pad_right 7 ''debug'' = ''debug  ''"
  by code_simp

text \<open>
  C7. \<^verbatim>\<open>Dump\<close> on a Recorder whose chain holds exactly one entry, at debug level, with
  no format string, the arguments \<^verbatim>\<open>"a", 1\<close> and the fields \<^verbatim>\<open>"k", "v"\<close>, returns the
  bytes of \<^verbatim>\<open>[debug  ] [a, 1] {k, v}\<close> and a newline.
\<close>

theorem Recorder_Dump_single_entry:
  assumes "derived h root r"
    and "entries (cells h root) = [\<lparr>Level = DebugLevel, Str = '''',
          Args = [VStr ''a'', VInt 1], Fields = [VStr ''k'', VStr ''v'']\<rparr>]"
  shows "Recorder_Dump Sprintf h r = Some (Inr (''[debug  ] [a, 1] {k, v}'' @ [CHR 0x0A]))"
proof -
  have "Recorder_Entries h r = Some [\<lparr>Level = DebugLevel, Str = '''',
          Args = [VStr ''a'', VInt 1], Fields = [VStr ''k'', VStr ''v'']\<rparr>]"
    using Recorder_Entries_derived [OF assms(1)] assms(2) by simp
  then show ?thesis
    by (simp add: Recorder_Dump_def dump_entry_def DebugLevel_def Level_String_cases
        pad_debug itoa_1 Let_def)
qed

theorem Recorder_Dump_single_entry_witness:
  "\<exists>c h1 h2.
      Recorder_With heap_one 0 [VStr ''k'', VStr ''v''] = (c, h1)
    \<and> Recorder_Log h1 c DebugLevel [VStr ''a'', VInt 1] = Some h2
    \<and> Recorder_Dump (\<lambda>f as. f) h2 c = Some (Inr (''[debug  ] [a, 1] {k, v}'' @ [CHR 0x0A]))"
proof -
  obtain c h1 where 1: "Recorder_With heap_one 0 [VStr ''k'', VStr ''v''] = (c, h1)"
    by (cases "Recorder_With heap_one 0 [VStr ''k'', VStr ''v'']")
  have lt: "0 < fresh heap_one"
    by (simp add: heap_one_facts)
  note w = Recorder_With_derived [OF heap_one_facts(3,1) lt 1]
  let ?e = "\<lparr>Level = DebugLevel, Str = '''', Args = [VStr ''a'', VInt 1],
    Fields = rfields (cells h1 c)\<rparr>"
  let ?h2 = "h1\<lparr>cells := (cells h1)(0 := (cells h1 0)\<lparr>entries := entries (cells h1 0) @ [?e]\<rparr>)\<rparr>"
  have log: "Recorder_Log h1 c DebugLevel [VStr ''a'', VInt 1] = Some ?h2"
    by (simp add: Recorder_Log_def Recorder_record_derived [OF w(1)])
  have d: "derived ?h2 0 c"
    by (rule derived_entries_update [OF w(1)])
  have ents: "entries (cells ?h2 0) = [\<lparr>Level = DebugLevel, Str = '''',
          Args = [VStr ''a'', VInt 1], Fields = [VStr ''k'', VStr ''v'']\<rparr>]"
    using w(5) w(6) [of 0] by (simp add: heap_one_facts)
  from Recorder_Dump_single_entry [OF d ents, of "\<lambda>f as. f"] 1 log
  show ?thesis
    by blast
qed

section \<open>Properties of secret masking\<close>


lemma matches_Sym_Nil: "matches (Sym p) [] = []"
  by (simp add: matches_simps)












lemma fold_lit_quote: "fold_lit (of_char (CHR 0x22)) r \<longleftrightarrow> r = 34"
  by (simp add: fold_lit_def)
















end
